theory Spec2Isabelle
  imports Main "HOL-Library.Sublist"
begin

section \<open>Data model\<close>

text \<open>
  The program is the sync service of \<^verbatim>\<open>src/unnamed/part_000\<close> (the variant with the
  processed-bookings store and the browser submitter). One earlier variant of
  \<^verbatim>\<open>src/index.js\<close> is modelled as well where a claim is about it: its
  \<^verbatim>\<open>subscribeToSubstack\<close> with the alternative endpoint.

  A booking is the object the booking API returns. Its \<^verbatim>\<open>id\<close> is a number or a string;
  the code only ever reads \<^verbatim>\<open>booking.id.toString()\<close>. Numeric ids are the integers
  that a JavaScript number holds exactly (magnitude below \<open>2^53\<close>); these print as
  their decimal digits. Larger numbers, which round and print differently, are not
  modelled.
\<close>

datatype booking_id = IdNum int | IdStr string

fun digits :: "nat \<Rightarrow> string" where
  "digits n = (if n < 10 then [char_of (48 + n)]
               else digits (n div 10) @ [char_of (48 + n mod 10)])"

declare digits.simps [simp del]

fun toString :: "booking_id \<Rightarrow> string" where
  "toString (IdStr s) = s"
| "toString (IdNum n) = (if n < 0 then CHR ''-'' # digits (nat (- n)) else digits (nat n))"

text \<open>
  A \<^verbatim>\<open>Date\<close> object is its time value: milliseconds since the epoch, or \<open>None\<close> for
  an Invalid Date (time value NaN). The field \<open>created_at\<close> of the model holds the
  time value of \<^verbatim>\<open>new Date(booking.created_at)\<close>, which the code computes from the
  upstream field wherever it reads it. The relational operators on two dates compare
  the time values as numbers, and every comparison with NaN is false.
\<close>

type_synonym js_date = "int option"

fun date_gt :: "js_date \<Rightarrow> js_date \<Rightarrow> bool" where
  "date_gt (Some a) (Some b) = (b < a)"
| "date_gt _ _ = False"

record contact =
  email :: string
  name :: "string option"

record booking =
  id :: booking_id
  created_at :: js_date
  contact :: contact

text \<open>
  Of \<^verbatim>\<open>CONFIG\<close> the model keeps the cutoff, as the time value of
  \<^verbatim>\<open>new Date('2025-07-26T21:00:00Z')\<close>. The functions take the configuration as an
  argument, so that a property can be stated for every cutoff.
\<close>

record config =
  AUTOMATION_START_TIME :: int

definition CONFIG :: config where
  "CONFIG = \<lparr> AUTOMATION_START_TIME = 1753563600000 \<rparr>"

subsection \<open>Errors and the activity log\<close>

datatype js_error = TypeError | RangeError | ExternalError string

text \<open>
  \<^verbatim>\<open>logActivity\<close> prints the message and appends it to the log file; a failure of the
  append is caught inside it, so it never throws. The model keeps the messages as
  events, one constructor for each template string of the source, with the values
  the template interpolates.
\<close>

datatype log_event =
    LoadedProcessed nat
  | NoPreviousHistory
  | ErrorSavingProcessed string
  | ErrorFetching string
  | StartingBrowser string
  | NavigatedToEmbed
  | EnteredEmail string
  | ClickedSubscribe
  | SubscribedOk string
  | SuccessUnclear string
  | NoSubscribeButton
  | AutomationFailed string string
  | BrowserClosed
  | ErrorSubscribing string string string
  | StartingSync
  | NoBookingsFound
  | FoundBookings nat nat
  | NoNewUnprocessed
  | ProcessingNew string "string option" string int
  | AddedToNewsletter string
  | FailedToAdd string
  | SyncCompleted nat nat

subsection \<open>The processed-bookings file and the global state\<close>

text \<open>
  The content of \<^verbatim>\<open>processed_bookings.json\<close> as \<^verbatim>\<open>fs.readFile\<close> and
  \<^verbatim>\<open>JSON.parse\<close> see it: no file (the read rejects), text that is not JSON (the
  parse throws), or a JSON value. Of the JSON values the model has \<^verbatim>\<open>null\<close>, a
  string, an array of strings (what the program itself writes) and the values that
  cannot be iterated (numbers, booleans, objects). Arrays with elements other than
  strings are not modelled. The file is identified with the value its text parses to:
  \<^verbatim>\<open>JSON.parse\<close> of what \<^verbatim>\<open>JSON.stringify\<close> printed for an array of strings is
  that array.
\<close>

datatype store_file =
    NoFile
  | Unparseable
  | JsonNull
  | JsonString string
  | JsonNotIterable
  | JsonArray "string list"

text \<open>
  A \<^verbatim>\<open>Set\<close> of strings is the list of its elements in insertion order.
\<close>

type_synonym js_set = "string list"

definition Set_has :: "js_set \<Rightarrow> string \<Rightarrow> bool" where
  "Set_has s x = (x \<in> set s)"

definition Set_add :: "js_set \<Rightarrow> string \<Rightarrow> js_set" where
  "Set_add s x = (if x \<in> set s then s else s @ [x])"

definition new_Set :: "string list \<Rightarrow> js_set" where
  "new_Set xs = foldl Set_add [] xs"

definition Array_from :: "js_set \<Rightarrow> string list" where
  "Array_from s = s"

record state =
  lastCheckTime :: int
  processedBookingIds :: js_set
  processedFile :: store_file
  activityLog :: "log_event list"

definition logActivity :: "log_event \<Rightarrow> state \<Rightarrow> state" where
  "logActivity message st = st\<lparr>activityLog := activityLog st @ [message]\<rparr>"

section \<open>Processed-Set Store\<close>

text \<open>
  The body of the \<^verbatim>\<open>try\<close> block of \<^verbatim>\<open>loadProcessedBookings\<close> up to the
  assignment: the set that \<^verbatim>\<open>new Set(JSON.parse(data))\<close> builds, or the error thrown
  on the way. Iterating a string yields its characters.
\<close>

fun parsed_Set :: "store_file \<Rightarrow> js_error + js_set" where
  "parsed_Set NoFile = Inl (ExternalError ''ENOENT'')"
| "parsed_Set Unparseable = Inl (ExternalError ''SyntaxError'')"
| "parsed_Set JsonNull = Inr (new_Set [])"
| "parsed_Set (JsonString s) = Inr (new_Set (map (\<lambda>c. [c]) s))"
| "parsed_Set JsonNotIterable = Inl TypeError"
| "parsed_Set (JsonArray bookingIds) = Inr (new_Set bookingIds)"

definition loadProcessedBookings :: "state \<Rightarrow> state" where
  "loadProcessedBookings st =
     (case parsed_Set (processedFile st) of
        Inr s \<Rightarrow> logActivity (LoadedProcessed (length s)) (st\<lparr>processedBookingIds := s\<rparr>)
      | Inl error \<Rightarrow> logActivity NoPreviousHistory (st\<lparr>processedBookingIds := new_Set []\<rparr>))"

text \<open>
  \<^verbatim>\<open>fs.writeFile\<close> either writes the text or rejects with a message; a rejected write
  leaves the file in whatever condition the failure produced.
\<close>

datatype write_outcome = Written | WriteError string store_file

definition saveProcessedBooking :: "write_outcome \<Rightarrow> booking_id \<Rightarrow> state \<Rightarrow> state" where
  "saveProcessedBooking w bookingId st =
     (let st1 = st\<lparr>processedBookingIds := Set_add (processedBookingIds st) (toString bookingId)\<rparr>;
          bookingArray = Array_from (processedBookingIds st1)
      in case w of
           Written \<Rightarrow> st1\<lparr>processedFile := JsonArray bookingArray\<rparr>
         | WriteError message f \<Rightarrow>
             logActivity (ErrorSavingProcessed message) (st1\<lparr>processedFile := f\<rparr>))"

section \<open>Eligibility filter\<close>

text \<open>
  The callback that \<^verbatim>\<open>syncBookingsToSubstack\<close> passes to \<^verbatim>\<open>allBookings.filter\<close>,
  and \<^verbatim>\<open>Array.prototype.filter\<close> itself.
\<close>

definition gdprCompliant :: "config \<Rightarrow> js_set \<Rightarrow> booking \<Rightarrow> bool" where
  "gdprCompliant cfg ids booking =
     (let bookingCreatedAt = created_at booking;
          isNewBooking = date_gt bookingCreatedAt (Some (AUTOMATION_START_TIME cfg));
          notAlreadyProcessed = \<not> Set_has ids (toString (id booking))
      in if \<not> isNewBooking then False
         else if \<not> notAlreadyProcessed then False
         else True)"

fun Array_filter :: "('a \<Rightarrow> bool) \<Rightarrow> 'a list \<Rightarrow> 'a list" where
  "Array_filter f [] = []"
| "Array_filter f (x # xs) = (if f x then x # Array_filter f xs else Array_filter f xs)"

definition gdprCompliantBookings :: "config \<Rightarrow> js_set \<Rightarrow> booking list \<Rightarrow> booking list" where
  "gdprCompliantBookings cfg ids allBookings = Array_filter (gdprCompliant cfg ids) allBookings"

section \<open>Booking Source Adapter\<close>

text \<open>
  What \<^verbatim>\<open>axios.get\<close> does: it rejects (transport error, or a status outside 2xx)
  with a message, or resolves with a response whose body \<^verbatim>\<open>response.data\<close> is
  \<^verbatim>\<open>null\<close> or a value with or without a \<^verbatim>\<open>data\<close> property. The property, when
  present, is \<^verbatim>\<open>null\<close> or the array of bookings that the API documents.
\<close>

datatype data_field = DataUndefined | DataNull | DataArray "booking list"

datatype response_body = BodyNull | Body data_field

datatype axios_get = GetRejects string | GetResolves response_body

fun error_message :: "js_error \<Rightarrow> string" where
  "error_message (ExternalError m) = m"
| "error_message TypeError = ''TypeError''"
| "error_message RangeError = ''RangeError''"

text \<open>Reading \<^verbatim>\<open>response.data.data\<close>: a property of \<^verbatim>\<open>null\<close> cannot be read.\<close>

fun response_data_data :: "response_body \<Rightarrow> js_error + data_field" where
  "response_data_data BodyNull = Inl TypeError"
| "response_data_data (Body d) = Inr d"

text \<open>\<^verbatim>\<open>x || []\<close>: an array is truthy, \<^verbatim>\<open>undefined\<close> and \<^verbatim>\<open>null\<close> are not.\<close>

fun or_empty :: "data_field \<Rightarrow> booking list" where
  "or_empty (DataArray bs) = bs"
| "or_empty DataUndefined = []"
| "or_empty DataNull = []"

definition getNewBookings_try :: "axios_get \<Rightarrow> js_error + booking list" where
  "getNewBookings_try r =
     (case r of
        GetRejects m \<Rightarrow> Inl (ExternalError m)
      | GetResolves body \<Rightarrow>
          (case response_data_data body of
             Inl e \<Rightarrow> Inl e
           | Inr d \<Rightarrow> Inr (or_empty d)))"

definition getNewBookings :: "axios_get \<Rightarrow> state \<Rightarrow> booking list \<times> state" where
  "getNewBookings r st =
     (case getNewBookings_try r of
        Inr bs \<Rightarrow> (bs, st)
      | Inl error \<Rightarrow> ([], logActivity (ErrorFetching (error_message error)) st))"

section \<open>Subscription Submitter\<close>

subsection \<open>The browser variant\<close>

text \<open>
  One call of \<^verbatim>\<open>subscribeToSubstack\<close> drives one browser session. The session is
  given by what the puppeteer calls do: one of them rejects (at a stage of the
  script, with a message), or no subscribe button is found, or the button is clicked
  and the page then shows some content under some URL. Closing the browser in the
  \<^verbatim>\<open>finally\<close> block may reject as well.
\<close>

datatype stage = Launch | Navigate | EnterEmail | FindButton | Click | ReadPage

datatype page_run = Rejects stage string | ButtonMissing | Submitted string string

record browser_env =
  page_run :: page_run
  close_error :: "string option"

text \<open>ASCII letters only; \<^verbatim>\<open>includes\<close> is the test for a contiguous substring.\<close>

definition toLowerCase :: "string \<Rightarrow> string" where
  "toLowerCase s =
     map (\<lambda>c. let n = (of_char c :: nat) in if 65 \<le> n \<and> n \<le> 90 then char_of (n + 32) else c) s"

definition String_includes :: "string \<Rightarrow> string \<Rightarrow> bool" where
  "String_includes s part = sublist part s"

definition successIndicators :: "string list" where
  "successIndicators =
     [''thank you'', ''check your email'', ''subscribed'', ''welcome'',
      ''confirm your subscription'', ''verification'']"

definition isSuccess :: "string \<Rightarrow> string \<Rightarrow> bool" where
  "isSuccess pageContent url =
     (list_ex (\<lambda>indicator. String_includes (toLowerCase pageContent) (toLowerCase indicator))
        successIndicators
      \<or> String_includes url ''success'' \<or> String_includes url ''confirm'')"

text \<open>The messages logged before the first call of a stage.\<close>

fun logged_before :: "stage \<Rightarrow> string \<Rightarrow> log_event list" where
  "logged_before Launch email' = [StartingBrowser email']"
| "logged_before Navigate email' = [StartingBrowser email']"
| "logged_before EnterEmail email' = [StartingBrowser email', NavigatedToEmbed]"
| "logged_before FindButton email' =
     [StartingBrowser email', NavigatedToEmbed, EnteredEmail email']"
| "logged_before Click email' =
     [StartingBrowser email', NavigatedToEmbed, EnteredEmail email']"
| "logged_before ReadPage email' =
     [StartingBrowser email', NavigatedToEmbed, EnteredEmail email', ClickedSubscribe]"

text \<open>The \<^verbatim>\<open>try\<close> block: what it logs, and the value it returns or the error it throws.\<close>

fun subscribe_try :: "page_run \<Rightarrow> string \<Rightarrow> log_event list \<times> (js_error + bool)" where
  "subscribe_try (Rejects stg m) email' = (logged_before stg email', Inl (ExternalError m))"
| "subscribe_try ButtonMissing email' =
     (logged_before Click email' @ [NoSubscribeButton], Inr False)"
| "subscribe_try (Submitted pageContent url) email' =
     (logged_before ReadPage email' @
        [if isSuccess pageContent url then SubscribedOk email' else SuccessUnclear email'],
      Inr True)"

text \<open>The variable \<^verbatim>\<open>browser\<close> is set once \<^verbatim>\<open>puppeteer.launch\<close> has resolved.\<close>

fun browser_launched :: "page_run \<Rightarrow> bool" where
  "browser_launched (Rejects Launch m) = False"
| "browser_launched _ = True"

definition logAll :: "log_event list \<Rightarrow> state \<Rightarrow> state" where
  "logAll evs st = foldl (\<lambda>s e. logActivity e s) st evs"

text \<open>
  The result is the boolean the function returns, or the error with which its promise
  rejects: an error thrown in \<^verbatim>\<open>finally\<close> replaces the pending \<^verbatim>\<open>return\<close>.
\<close>

definition subscribeToSubstack ::
    "browser_env \<Rightarrow> string \<Rightarrow> string option \<Rightarrow> state \<Rightarrow> (js_error + bool) \<times> state" where
  "subscribeToSubstack env email' name' st =
     (let (evs, r) = subscribe_try (page_run env) email';
          st1 = logAll evs st;
          (ret, st2) =
            (case r of
               Inr b \<Rightarrow> (b, st1)
             | Inl error \<Rightarrow>
                 (False, logActivity (AutomationFailed email' (error_message error)) st1))
      in if browser_launched (page_run env)
         then (case close_error env of
                 None \<Rightarrow> (Inr ret, logActivity BrowserClosed st2)
               | Some m \<Rightarrow> (Inl (ExternalError m), st2))
         else (Inr ret, st2))"

subsection \<open>The variant with the alternative endpoint\<close>

text \<open>
  \<^verbatim>\<open>subscribeToSubstack\<close> of the second program in \<^verbatim>\<open>src/index.js\<close>. A call of
  \<^verbatim>\<open>axios.post\<close> rejects with a message (transport error, timeout, or a status
  outside 2xx) or resolves with a status. The function returns, next to its result,
  the requests it sent, in order.
\<close>

datatype http_outcome = PostRejects string | PostStatus nat

datatype endpoint = ApiSubscribe | ApiFree

record post_env =
  primary :: http_outcome
  alternative :: http_outcome

record request =
  req_url :: endpoint
  req_email :: string
  req_name :: string

fun or_empty_string :: "string option \<Rightarrow> string" where
  "or_empty_string None = []"
| "or_empty_string (Some n) = n"

definition subscribeToSubstack_fallback ::
    "post_env \<Rightarrow> string \<Rightarrow> string option \<Rightarrow> state \<Rightarrow> bool \<times> request list \<times> state" where
  "subscribeToSubstack_fallback env email' name' st =
     (let first = \<lparr>req_url = ApiSubscribe, req_email = email', req_name = or_empty_string name'\<rparr>;
          second = \<lparr>req_url = ApiFree, req_email = email', req_name = or_empty_string name'\<rparr>
      in case primary env of
           PostStatus status \<Rightarrow> (status = 200 \<or> status = 201, [first], st)
         | PostRejects m \<Rightarrow>
             (case alternative env of
                PostStatus status \<Rightarrow> (status = 200 \<or> status = 201, [first, second], st)
              | PostRejects altm \<Rightarrow>
                  (False, [first, second], logActivity (ErrorSubscribing email' m altm) st)))"

section \<open>Sync Orchestrator\<close>

text \<open>
  What the outside world does during one cycle: the answer of the booking API, for
  the \<open>i\<close>-th booking of the loop the browser session and the outcome of the write in
  \<^verbatim>\<open>saveProcessedBooking\<close>, and the clock reading of \<^verbatim>\<open>new Date()\<close> at the end.
\<close>

record step_env =
  browser :: browser_env
  write_outcome :: write_outcome

record cycle_env =
  response :: axios_get
  steps :: "nat \<Rightarrow> step_env"
  now :: int

datatype call_result = Returned bool | Raised js_error

datatype cycle_outcome = ReturnedEarly | Completed | Threw js_error

text \<open>
  The result of a cycle: how it ended, the state it left, and the calls of
  \<^verbatim>\<open>subscribeToSubstack\<close> it made, each with the booking it was made for.
\<close>

record cycle_result =
  outcome :: cycle_outcome
  final :: state
  calls :: "(booking \<times> call_result) list"

text \<open>
  The \<^verbatim>\<open>for\<close> loop. The template string of the first message calls
  \<^verbatim>\<open>toISOString\<close>, which throws a RangeError on an Invalid Date. An error leaves the
  loop and the function, which has no handler.
\<close>

fun process_bookings ::
    "(nat \<Rightarrow> step_env) \<Rightarrow> nat \<Rightarrow> booking list \<Rightarrow> state
       \<Rightarrow> js_error option \<times> state \<times> (booking \<times> call_result) list" where
  "process_bookings env i [] st = (None, st, [])"
| "process_bookings env i (booking # rest) st =
     (let email' = email (contact booking);
          name' = name (contact booking);
          bookingId = id booking
      in case created_at booking of
           None \<Rightarrow> (Some RangeError, st, [])
         | Some t \<Rightarrow>
             (let st1 = logActivity (ProcessingNew (toString bookingId) name' email' t) st
              in case subscribeToSubstack (browser (env i)) email' name' st1 of
                   (Inl error, st2) \<Rightarrow> (Some error, st2, [(booking, Raised error)])
                 | (Inr success, st2) \<Rightarrow>
                     (let st3 =
                            (if success
                             then saveProcessedBooking (write_outcome (env i)) bookingId
                                    (logActivity (AddedToNewsletter email') st2)
                             else logActivity (FailedToAdd email') st2);
                          (err, st4, cs) = process_bookings env (Suc i) rest st3
                      in (err, st4, (booking, Returned success) # cs))))"

definition syncBookingsToSubstack :: "config \<Rightarrow> cycle_env \<Rightarrow> state \<Rightarrow> cycle_result" where
  "syncBookingsToSubstack cfg env st =
     (let (allBookings, st1) = getNewBookings (response env) (logActivity StartingSync st)
      in if length allBookings = 0
         then \<lparr>outcome = ReturnedEarly, final = logActivity NoBookingsFound st1, calls = []\<rparr>
         else
           (let compliant = gdprCompliantBookings cfg (processedBookingIds st1) allBookings;
                st2 = logActivity (FoundBookings (length allBookings) (length compliant)) st1
            in if length compliant = 0
               then \<lparr>outcome = ReturnedEarly, final = logActivity NoNewUnprocessed st2,
                      calls = []\<rparr>
               else
                 (case process_bookings (steps env) 0 compliant st2 of
                    (Some error, st3, cs) \<Rightarrow> \<lparr>outcome = Threw error, final = st3, calls = cs\<rparr>
                  | (None, st3, cs) \<Rightarrow>
                      (let st4 = st3\<lparr>lastCheckTime := now env\<rparr>
                       in \<lparr>outcome = Completed,
                           final = logActivity
                                     (SyncCompleted (length compliant)
                                        (length (processedBookingIds st4))) st4,
                           calls = cs\<rparr>))))"

text \<open>
  The timer and the \<^verbatim>\<open>/sync\<close> endpoint call the same function. A run is a sequence
  of cycles of one process, one after the other, on the in-memory state the previous
  one left; it collects the submitter calls of all of them. The run goes on after a
  cycle that threw. Where the runtime ends the process on the unhandled rejection
  instead, what really runs is a prefix of such a run. Restarts of the process and
  cycles that overlap in time are not part of a run.
\<close>

fun run_cycles ::
    "config \<Rightarrow> cycle_env list \<Rightarrow> state \<Rightarrow> state \<times> (booking \<times> call_result) list" where
  "run_cycles cfg [] st = (st, [])"
| "run_cycles cfg (env # envs) st =
     (let r = syncBookingsToSubstack cfg env st;
          (st', cs) = run_cycles cfg envs (final r)
      in (st', calls r @ cs))"

text \<open>
  The eligible bookings of a cycle that starts in a state: the filter applied to what
  the cycle fetches, with the processed set of that state.
\<close>

definition eligible :: "config \<Rightarrow> cycle_env \<Rightarrow> state \<Rightarrow> booking list" where
  "eligible cfg env st =
     gdprCompliantBookings cfg (processedBookingIds st) (fst (getNewBookings (response env) st))"

section \<open>Concrete scenarios\<close>

text \<open>
  The bookings of the scenarios of the specification, with the cutoff of \<open>CONFIG\<close>:
  \<open>A\<close> is created an hour before the cutoff, \<open>B\<close> an hour after it and \<open>C\<close>
  two hours after it; one more booking is created exactly at the cutoff.
\<close>

definition booking_A :: booking where
  "booking_A = \<lparr>id = IdStr ''A'', created_at = Some 1753560000000,
                 contact = \<lparr>email = ''x@y.com'', name = None\<rparr>\<rparr>"

definition booking_B :: booking where
  "booking_B = \<lparr>id = IdStr ''B'', created_at = Some 1753567200000,
                 contact = \<lparr>email = ''a@b.com'', name = Some ''Bea''\<rparr>\<rparr>"

definition booking_C :: booking where
  "booking_C = \<lparr>id = IdNum 17, created_at = Some 1753570800000,
                 contact = \<lparr>email = ''c@d.com'', name = None\<rparr>\<rparr>"

definition booking_at_cutoff :: booking where
  "booking_at_cutoff = \<lparr>id = IdStr ''D'', created_at = Some 1753563600000,
                         contact = \<lparr>email = ''d@e.com'', name = None\<rparr>\<rparr>"

definition fresh_state :: state where
  "fresh_state = \<lparr>lastCheckTime = 1753563000000, processedBookingIds = [],
                   processedFile = NoFile, activityLog = []\<rparr>"

text \<open>
  Browser sessions: one that clicks the button and reads a confirmation, one whose
  navigation times out, and one whose navigation times out and whose browser then
  fails to close.
\<close>

definition session_subscribed :: browser_env where
  "session_subscribed = \<lparr>page_run = Submitted ''Thank you'' ''embed'', close_error = None\<rparr>"

definition session_timeout :: browser_env where
  "session_timeout = \<lparr>page_run = Rejects Navigate ''Navigation timeout'', close_error = None\<rparr>"

definition session_close_fails :: browser_env where
  "session_close_fails =
     \<lparr>page_run = Rejects Navigate ''Navigation timeout'', close_error = Some ''Target closed''\<rparr>"

text \<open>
  Cycles: the API returns \<open>A\<close>, \<open>B\<close>, the booking at the cutoff and \<open>C\<close>, the
  first submission fails and the later ones succeed; the request to the API fails; the
  API returns no booking; the API returns \<open>A\<close> alone; the API returns \<open>B\<close> and \<open>C\<close>
  and every browser session ends in a failure to close the browser; the same, with
  only the first session failing and the later ones subscribing.
\<close>

definition cycle_first_fails :: cycle_env where
  "cycle_first_fails =
     \<lparr>response = GetResolves (Body (DataArray [booking_A, booking_B, booking_at_cutoff, booking_C])),
      steps = (\<lambda>i. \<lparr>browser = (if i = 0 then session_timeout else session_subscribed),
                     write_outcome = Written\<rparr>),
      now = 1753600000000\<rparr>"

definition cycle_fetch_fails :: cycle_env where
  "cycle_fetch_fails =
     \<lparr>response = GetRejects ''timeout exceeded'',
      steps = (\<lambda>i. \<lparr>browser = session_subscribed, write_outcome = Written\<rparr>),
      now = 1753600000000\<rparr>"

definition cycle_no_bookings :: cycle_env where
  "cycle_no_bookings = cycle_fetch_fails\<lparr>response := GetResolves (Body (DataArray []))\<rparr>"

definition cycle_only_old :: cycle_env where
  "cycle_only_old = cycle_fetch_fails\<lparr>response := GetResolves (Body (DataArray [booking_A]))\<rparr>"

definition cycle_close_fails :: cycle_env where
  "cycle_close_fails =
     \<lparr>response = GetResolves (Body (DataArray [booking_B, booking_C])),
      steps = (\<lambda>i. \<lparr>browser = session_close_fails, write_outcome = Written\<rparr>),
      now = 1753600000000\<rparr>"

definition cycle_first_close_fails :: cycle_env where
  "cycle_first_close_fails =
     \<lparr>response = GetResolves (Body (DataArray [booking_B, booking_C])),
      steps = (\<lambda>i. \<lparr>browser = (if i = 0 then session_close_fails else session_subscribed),
                     write_outcome = Written\<rparr>),
      now = 1753600000000\<rparr>"

text \<open>Outcomes of the two requests of the variant with the alternative endpoint.\<close>

definition posts_both_fail :: post_env where
  "posts_both_fail = \<lparr>primary = PostRejects ''status 404'', alternative = PostRejects ''timeout''\<rparr>"

definition posts_second_succeeds :: post_env where
  "posts_second_succeeds = \<lparr>primary = PostRejects ''status 404'', alternative = PostStatus 200\<rparr>"

section \<open>Properties\<close>

lemma Array_filter_eq: "Array_filter f xs = filter f xs"
  by (induction xs) simp_all

lemma gdprCompliant_iff:
  "gdprCompliant cfg ids b \<longleftrightarrow>
     (\<exists>t. created_at b = Some t \<and> AUTOMATION_START_TIME cfg < t) \<and> toString (id b) \<notin> set ids"
  by (cases "created_at b") (simp_all add: gdprCompliant_def Set_has_def)

subsection \<open>Sets, the log and the store\<close>

lemma Set_add_set: "set (Set_add s x) = insert x (set s)"
  by (auto simp: Set_add_def)

lemma Set_add_distinct: "distinct s \<Longrightarrow> distinct (Set_add s x)"
  by (simp add: Set_add_def)

lemma foldl_Set_add_distinct:
  "distinct (acc @ xs) \<Longrightarrow> foldl Set_add acc xs = acc @ xs"
proof (induction xs arbitrary: acc)
  case Nil
  then show ?case by simp
next
  case (Cons x xs)
  from Cons.prems have "Set_add acc x = acc @ [x]" by (simp add: Set_add_def)
  moreover from Cons.prems have "distinct ((acc @ [x]) @ xs)" by simp
  ultimately show ?case using Cons.IH [of "acc @ [x]"] by simp
qed

lemma new_Set_distinct_id: "distinct xs \<Longrightarrow> new_Set xs = xs"
  using foldl_Set_add_distinct [of "[]" xs] by (simp add: new_Set_def)

lemma foldl_Set_add_set: "set (foldl Set_add acc xs) = set acc \<union> set xs"
  by (induction xs arbitrary: acc) (auto simp: Set_add_set)

lemma foldl_Set_add_is_distinct: "distinct acc \<Longrightarrow> distinct (foldl Set_add acc xs)"
  by (induction xs arbitrary: acc) (auto simp: Set_add_distinct)

lemma new_Set_is_distinct: "distinct (new_Set xs)"
  by (simp add: new_Set_def foldl_Set_add_is_distinct)

lemma logActivity_fields [simp]:
  "lastCheckTime (logActivity e st) = lastCheckTime st"
  "processedBookingIds (logActivity e st) = processedBookingIds st"
  "processedFile (logActivity e st) = processedFile st"
  "activityLog (logActivity e st) = activityLog st @ [e]"
  by (simp_all add: logActivity_def)

lemma logAll_fields [simp]:
  "lastCheckTime (logAll evs st) = lastCheckTime st"
  "processedBookingIds (logAll evs st) = processedBookingIds st"
  "processedFile (logAll evs st) = processedFile st"
  "activityLog (logAll evs st) = activityLog st @ evs"
  unfolding logAll_def by (induction evs arbitrary: st) simp_all

lemma subscribeToSubstack_fields [simp]:
  "lastCheckTime (snd (subscribeToSubstack env e n st)) = lastCheckTime st"
  "processedBookingIds (snd (subscribeToSubstack env e n st)) = processedBookingIds st"
  "processedFile (snd (subscribeToSubstack env e n st)) = processedFile st"
  by (auto simp add: subscribeToSubstack_def Let_def split: prod.splits sum.splits option.splits)

lemma subscribeToSubstack_result:
  "fst (subscribeToSubstack env e n st) =
     (if browser_launched (page_run env) \<and> close_error env \<noteq> None
      then Inl (ExternalError (the (close_error env)))
      else Inr (case page_run env of Submitted c u \<Rightarrow> True | _ \<Rightarrow> False))"
  by (cases "page_run env")
     (auto simp add: subscribeToSubstack_def Let_def split: prod.splits sum.splits option.splits)

lemma saveProcessedBooking_ids:
  "processedBookingIds (saveProcessedBooking w b st) = Set_add (processedBookingIds st) (toString b)"
  by (simp add: saveProcessedBooking_def Let_def split: write_outcome.splits)

lemma saveProcessedBooking_time [simp]:
  "lastCheckTime (saveProcessedBooking w b st) = lastCheckTime st"
  by (simp add: saveProcessedBooking_def Let_def split: write_outcome.splits)

lemma getNewBookings_fields [simp]:
  "lastCheckTime (snd (getNewBookings r st)) = lastCheckTime st"
  "processedBookingIds (snd (getNewBookings r st)) = processedBookingIds st"
  "processedFile (snd (getNewBookings r st)) = processedFile st"
  by (simp_all add: getNewBookings_def split: sum.splits)

lemma getNewBookings_fst: "fst (getNewBookings r st) = fst (getNewBookings r st')"
  by (simp add: getNewBookings_def split: sum.splits)

subsection \<open>The loop over the eligible bookings\<close>

lemma process_bookings_Cons_cases:
  assumes "process_bookings env i (b # bs) st = (err, st', cs)"
  shows "(created_at b = None \<and> err = Some RangeError \<and> st' = st \<and> cs = [])
       \<or> (\<exists>e. created_at b \<noteq> None \<and> err = Some e \<and> cs = [(b, Raised e)]
              \<and> lastCheckTime st' = lastCheckTime st
              \<and> processedBookingIds st' = processedBookingIds st
              \<and> processedFile st' = processedFile st)
       \<or> (\<exists>success st3 cs'. created_at b \<noteq> None
              \<and> process_bookings env (Suc i) bs st3 = (err, st', cs')
              \<and> cs = (b, Returned success) # cs'
              \<and> lastCheckTime st3 = lastCheckTime st
              \<and> processedBookingIds st3 =
                  (if success then Set_add (processedBookingIds st) (toString (id b))
                   else processedBookingIds st))"
proof (cases "created_at b")
  case None
  with assms show ?thesis by simp
next
  case (Some t)
  let ?st1 = "logActivity (ProcessingNew (toString (id b)) (name (contact b)) (email (contact b)) t) st"
  let ?sub = "subscribeToSubstack (browser (env i)) (email (contact b)) (name (contact b)) ?st1"
  obtain res st2 where sub: "?sub = (res, st2)"
    by (cases ?sub)
  have f2: "lastCheckTime st2 = lastCheckTime st" "processedBookingIds st2 = processedBookingIds st"
      "processedFile st2 = processedFile st"
    using subscribeToSubstack_fields [of "browser (env i)" "email (contact b)" "name (contact b)" ?st1] sub
    by simp_all
  show ?thesis
  proof (cases res)
    case (Inl e)
    with assms Some sub f2 show ?thesis by (auto simp add: Let_def)
  next
    case (Inr success)
    let ?st3 = "if success
                then saveProcessedBooking (write_outcome (env i)) (id b)
                       (logActivity (AddedToNewsletter (email (contact b))) st2)
                else logActivity (FailedToAdd (email (contact b))) st2"
    obtain err' st4 cs' where rec: "process_bookings env (Suc i) bs ?st3 = (err', st4, cs')"
      by (cases "process_bookings env (Suc i) bs ?st3") auto
    have res: "err = err'" "st' = st4" "cs = (b, Returned success) # cs'"
      using assms Some sub Inr rec by (simp_all add: Let_def)
    have "lastCheckTime ?st3 = lastCheckTime st" using f2 by simp
    moreover have "processedBookingIds ?st3 =
        (if success then Set_add (processedBookingIds st) (toString (id b))
         else processedBookingIds st)"
      using f2 by (simp add: saveProcessedBooking_ids)
    ultimately show ?thesis using rec res Some by blast
  qed
qed

lemma process_bookings_time:
  "process_bookings env i bs st = (err, st', cs) \<Longrightarrow> lastCheckTime st' = lastCheckTime st"
proof (induction bs arbitrary: i st cs)
  case Nil
  then show ?case by simp
next
  case (Cons b bs)
  from process_bookings_Cons_cases [OF Cons.prems] show ?case
    using Cons.IH by (elim disjE exE conjE) auto
qed

lemma process_bookings_ids:
  "process_bookings env i bs st = (err, st', cs) \<Longrightarrow>
     set (processedBookingIds st') =
       set (processedBookingIds st) \<union> {toString (id b) | b. (b, Returned True) \<in> set cs}"
proof (induction bs arbitrary: i st cs)
  case Nil
  then show ?case by simp
next
  case (Cons b bs)
  from process_bookings_Cons_cases [OF Cons.prems] show ?case
  proof (elim disjE exE conjE)
    fix success st3 cs'
    assume rec: "process_bookings env (Suc i) bs st3 = (err, st', cs')"
      and cs: "cs = (b, Returned success) # cs'"
      and ids: "processedBookingIds st3 =
                  (if success then Set_add (processedBookingIds st) (toString (id b))
                   else processedBookingIds st)"
    from Cons.IH [OF rec] ids cs show ?thesis
      by (cases success) (auto simp: Set_add_set)
  qed auto
qed

lemma process_bookings_prefix:
  "process_bookings env i bs st = (err, st', cs) \<Longrightarrow> prefix (map fst cs) bs"
proof (induction bs arbitrary: i st cs)
  case Nil
  then show ?case by simp
next
  case (Cons b bs)
  from process_bookings_Cons_cases [OF Cons.prems] show ?case
    using Cons.IH by (elim disjE exE conjE) auto
qed

lemma process_bookings_distinct:
  "process_bookings env i bs st = (err, st', cs) \<Longrightarrow> distinct (processedBookingIds st)
     \<Longrightarrow> distinct (processedBookingIds st')"
proof (induction bs arbitrary: i st cs)
  case Nil
  then show ?case by simp
next
  case (Cons b bs)
  from process_bookings_Cons_cases [OF Cons.prems(1)] show ?case
  proof (elim disjE exE conjE)
    fix success st3 cs'
    assume rec: "process_bookings env (Suc i) bs st3 = (err, st', cs')"
      and ids: "processedBookingIds st3 =
                  (if success then Set_add (processedBookingIds st) (toString (id b))
                   else processedBookingIds st)"
    from ids Cons.prems(2) have "distinct (processedBookingIds st3)"
      by (simp add: Set_add_distinct)
    with Cons.IH [OF rec] show ?thesis .
  qed (use Cons.prems(2) in auto)
qed

text \<open>The loop ends before the last booking only with an error, and the error of a
  valid booking is the one its submitter call raised.\<close>

lemma process_bookings_complete:
  "process_bookings env i bs st = (None, st', cs) \<Longrightarrow>
     map fst cs = bs \<and> (\<forall>c \<in> set cs. \<exists>r. snd c = Returned r)"
proof (induction bs arbitrary: i st cs)
  case Nil
  then show ?case by simp
next
  case (Cons b bs)
  from process_bookings_Cons_cases [OF Cons.prems] show ?case
    using Cons.IH by (elim disjE exE conjE) auto
qed

lemma process_bookings_error:
  "process_bookings env i bs st = (Some e, st', cs) \<Longrightarrow> \<forall>b \<in> set bs. created_at b \<noteq> None \<Longrightarrow>
     cs \<noteq> [] \<and> snd (last cs) = Raised e"
proof (induction bs arbitrary: i st cs)
  case Nil
  then show ?case by simp
next
  case (Cons b bs)
  from process_bookings_Cons_cases [OF Cons.prems(1)] show ?case
    using Cons.IH Cons.prems(2) by (elim disjE exE conjE) auto
qed

lemma process_bookings_no_raise:
  "\<forall>j. close_error (browser (env j)) = None \<Longrightarrow> \<forall>b \<in> set bs. created_at b \<noteq> None \<Longrightarrow>
     fst (process_bookings env i bs st) = None"
proof (induction bs arbitrary: i st)
  case Nil
  then show ?case by simp
next
  case (Cons b bs)
  obtain err st' cs where pb: "process_bookings env i (b # bs) st = (err, st', cs)"
    by (cases "process_bookings env i (b # bs) st") auto
  from process_bookings_Cons_cases [OF pb] show ?case
  proof (elim disjE exE conjE)
    fix e
    assume "cs = [(b, Raised e)]" "created_at b \<noteq> None"
    then obtain t where t: "created_at b = Some t" by auto
    let ?st1 = "logActivity (ProcessingNew (toString (id b)) (name (contact b)) (email (contact b)) t) st"
    have "fst (subscribeToSubstack (browser (env i)) (email (contact b)) (name (contact b)) ?st1)
            = Inr (case page_run (browser (env i)) of Submitted c u \<Rightarrow> True | _ \<Rightarrow> False)"
      using Cons.prems(1) by (simp add: subscribeToSubstack_result)
    with pb t \<open>cs = [(b, Raised e)]\<close> show ?thesis
      by (auto simp: Let_def split: prod.splits sum.splits)
  next
    fix success st3 cs'
    assume rec: "process_bookings env (Suc i) bs st3 = (err, st', cs')"
    have "fst (process_bookings env (Suc i) bs st3) = None"
      using Cons.IH [of "Suc i" st3] Cons.prems by simp
    with rec pb show ?thesis by simp
  qed (use Cons.prems(2) in auto)
qed

subsection \<open>One cycle\<close>

lemma eligible_filter:
  "eligible cfg env st =
     filter (\<lambda>b. (\<exists>t. created_at b = Some t \<and> AUTOMATION_START_TIME cfg < t)
                  \<and> toString (id b) \<notin> set (processedBookingIds st))
       (fst (getNewBookings (response env) st))"
  unfolding eligible_def gdprCompliantBookings_def Array_filter_eq
  by (rule filter_cong) (simp_all add: gdprCompliant_iff)

lemma eligible_valid: "b \<in> set (eligible cfg env st) \<Longrightarrow> created_at b \<noteq> None"
  by (auto simp: eligible_filter)

lemma sync_early:
  assumes "eligible cfg env st = []"
  shows "outcome (syncBookingsToSubstack cfg env st) = ReturnedEarly
       \<and> calls (syncBookingsToSubstack cfg env st) = []
       \<and> lastCheckTime (final (syncBookingsToSubstack cfg env st)) = lastCheckTime st
       \<and> processedBookingIds (final (syncBookingsToSubstack cfg env st)) = processedBookingIds st
       \<and> processedFile (final (syncBookingsToSubstack cfg env st)) = processedFile st"
proof -
  let ?st0 = "logActivity StartingSync st"
  obtain bs st1 where g: "getNewBookings (response env) ?st0 = (bs, st1)"
    by (cases "getNewBookings (response env) ?st0")
  have bs: "bs = fst (getNewBookings (response env) st)"
    using g getNewBookings_fst [of "response env" ?st0 st] by simp
  have f1: "lastCheckTime st1 = lastCheckTime st" "processedBookingIds st1 = processedBookingIds st"
    "processedFile st1 = processedFile st"
    using getNewBookings_fields [of "response env" ?st0] g by simp_all
  have "gdprCompliantBookings cfg (processedBookingIds st1) bs = []"
    using assms bs f1 by (simp add: eligible_def)
  then show ?thesis
    using g f1 by (simp add: syncBookingsToSubstack_def Let_def)
qed

lemma sync_loop:
  assumes "eligible cfg env st \<noteq> []"
  shows "\<exists>st2 err st3 cs.
           lastCheckTime st2 = lastCheckTime st
         \<and> processedBookingIds st2 = processedBookingIds st
         \<and> process_bookings (steps env) 0 (eligible cfg env st) st2 = (err, st3, cs)
         \<and> calls (syncBookingsToSubstack cfg env st) = cs
         \<and> (err = None \<longrightarrow> outcome (syncBookingsToSubstack cfg env st) = Completed
               \<and> lastCheckTime (final (syncBookingsToSubstack cfg env st)) = now env
               \<and> processedBookingIds (final (syncBookingsToSubstack cfg env st))
                   = processedBookingIds st3)
         \<and> (\<forall>e. err = Some e \<longrightarrow> outcome (syncBookingsToSubstack cfg env st) = Threw e
               \<and> final (syncBookingsToSubstack cfg env st) = st3)"
proof -
  let ?st0 = "logActivity StartingSync st"
  obtain bs st1 where g: "getNewBookings (response env) ?st0 = (bs, st1)"
    by (cases "getNewBookings (response env) ?st0")
  have bs: "bs = fst (getNewBookings (response env) st)"
    using g getNewBookings_fst [of "response env" ?st0 st] by simp
  have f1: "lastCheckTime st1 = lastCheckTime st" "processedBookingIds st1 = processedBookingIds st"
    using getNewBookings_fields [of "response env" ?st0] g by simp_all
  have el: "gdprCompliantBookings cfg (processedBookingIds st1) bs = eligible cfg env st"
    using bs f1 by (simp add: eligible_def)
  have ne: "bs \<noteq> []"
    using assms el by (auto simp: gdprCompliantBookings_def)
  let ?st2 = "logActivity (FoundBookings (length bs) (length (eligible cfg env st))) st1"
  obtain err st3 cs where pb: "process_bookings (steps env) 0 (eligible cfg env st) ?st2 = (err, st3, cs)"
    by (cases "process_bookings (steps env) 0 (eligible cfg env st) ?st2") auto
  have "calls (syncBookingsToSubstack cfg env st) = cs"
    using g el ne assms pb by (simp add: syncBookingsToSubstack_def Let_def split: option.splits)
  moreover have "err = None \<longrightarrow> outcome (syncBookingsToSubstack cfg env st) = Completed
               \<and> lastCheckTime (final (syncBookingsToSubstack cfg env st)) = now env
               \<and> processedBookingIds (final (syncBookingsToSubstack cfg env st))
                   = processedBookingIds st3"
    using g el ne assms pb by (simp add: syncBookingsToSubstack_def Let_def)
  moreover have "\<forall>e. err = Some e \<longrightarrow> outcome (syncBookingsToSubstack cfg env st) = Threw e
               \<and> final (syncBookingsToSubstack cfg env st) = st3"
    using g el ne assms pb by (simp add: syncBookingsToSubstack_def Let_def)
  moreover have "lastCheckTime ?st2 = lastCheckTime st" "processedBookingIds ?st2 = processedBookingIds st"
    using f1 by simp_all
  ultimately show ?thesis using pb by blast
qed

lemma sync_calls_prefix:
  "prefix (map fst (calls (syncBookingsToSubstack cfg env st))) (eligible cfg env st)"
proof (cases "eligible cfg env st = []")
  case True
  then show ?thesis using sync_early [OF True] by simp
next
  case False
  from sync_loop [OF False] show ?thesis
    by (auto dest: process_bookings_prefix)
qed

lemma sync_ids:
  "set (processedBookingIds (final (syncBookingsToSubstack cfg env st))) =
     set (processedBookingIds st)
       \<union> {toString (id b) | b. (b, Returned True) \<in> set (calls (syncBookingsToSubstack cfg env st))}"
proof (cases "eligible cfg env st = []")
  case True
  then show ?thesis using sync_early [OF True] by simp
next
  case False
  from sync_loop [OF False] obtain st2 err st3 cs where
    st2: "processedBookingIds st2 = processedBookingIds st"
    and pb: "process_bookings (steps env) 0 (eligible cfg env st) st2 = (err, st3, cs)"
    and cs: "calls (syncBookingsToSubstack cfg env st) = cs"
    and ok: "err = None \<longrightarrow> processedBookingIds (final (syncBookingsToSubstack cfg env st))
                   = processedBookingIds st3"
    and bad: "\<forall>e. err = Some e \<longrightarrow> final (syncBookingsToSubstack cfg env st) = st3"
    by blast
  have "processedBookingIds (final (syncBookingsToSubstack cfg env st)) = processedBookingIds st3"
    using ok bad by (cases err) auto
  then show ?thesis
    using process_bookings_ids [OF pb] st2 cs by simp
qed

lemma sync_distinct:
  assumes "distinct (processedBookingIds st)"
  shows "distinct (processedBookingIds (final (syncBookingsToSubstack cfg env st)))"
proof (cases "eligible cfg env st = []")
  case True
  then show ?thesis using sync_early [OF True] assms by simp
next
  case False
  from sync_loop [OF False] obtain st2 err st3 cs where
    st2: "processedBookingIds st2 = processedBookingIds st"
    and pb: "process_bookings (steps env) 0 (eligible cfg env st) st2 = (err, st3, cs)"
    and ok: "err = None \<longrightarrow> processedBookingIds (final (syncBookingsToSubstack cfg env st))
                   = processedBookingIds st3"
    and bad: "\<forall>e. err = Some e \<longrightarrow> final (syncBookingsToSubstack cfg env st) = st3"
    by blast
  have "processedBookingIds (final (syncBookingsToSubstack cfg env st)) = processedBookingIds st3"
    using ok bad by (cases err) auto
  then show ?thesis
    using process_bookings_distinct [OF pb] st2 assms by simp
qed

lemma sync_time:
  "lastCheckTime (final (syncBookingsToSubstack cfg env st)) =
     (if outcome (syncBookingsToSubstack cfg env st) = Completed then now env
      else lastCheckTime st)"
proof (cases "eligible cfg env st = []")
  case True
  then show ?thesis using sync_early [OF True] by simp
next
  case False
  from sync_loop [OF False] obtain st2 err st3 cs where
    st2: "lastCheckTime st2 = lastCheckTime st"
    and pb: "process_bookings (steps env) 0 (eligible cfg env st) st2 = (err, st3, cs)"
    and ok: "err = None \<longrightarrow> outcome (syncBookingsToSubstack cfg env st) = Completed
               \<and> lastCheckTime (final (syncBookingsToSubstack cfg env st)) = now env"
    and bad: "\<forall>e. err = Some e \<longrightarrow> outcome (syncBookingsToSubstack cfg env st) = Threw e
               \<and> final (syncBookingsToSubstack cfg env st) = st3"
    by blast
  show ?thesis
  proof (cases err)
    case None
    with ok show ?thesis by simp
  next
    case (Some e)
    with bad process_bookings_time [OF pb] st2 show ?thesis by simp
  qed
qed

lemma sync_outcome_cases:
  "(outcome (syncBookingsToSubstack cfg env st) = ReturnedEarly \<longleftrightarrow> eligible cfg env st = [])
   \<and> (\<forall>e. outcome (syncBookingsToSubstack cfg env st) = Threw e \<longrightarrow>
         calls (syncBookingsToSubstack cfg env st) \<noteq> []
         \<and> snd (last (calls (syncBookingsToSubstack cfg env st))) = Raised e)
   \<and> (outcome (syncBookingsToSubstack cfg env st) = Completed \<longrightarrow>
         map fst (calls (syncBookingsToSubstack cfg env st)) = eligible cfg env st
         \<and> (\<forall>c \<in> set (calls (syncBookingsToSubstack cfg env st)). \<exists>r. snd c = Returned r))"
proof (cases "eligible cfg env st = []")
  case True
  then show ?thesis using sync_early [OF True] by simp
next
  case False
  from sync_loop [OF False] obtain st2 err st3 cs where
    pb: "process_bookings (steps env) 0 (eligible cfg env st) st2 = (err, st3, cs)"
    and cs: "calls (syncBookingsToSubstack cfg env st) = cs"
    and ok: "err = None \<longrightarrow> outcome (syncBookingsToSubstack cfg env st) = Completed"
    and bad: "\<forall>e. err = Some e \<longrightarrow> outcome (syncBookingsToSubstack cfg env st) = Threw e"
    by blast
  have valid: "\<forall>b \<in> set (eligible cfg env st). created_at b \<noteq> None"
    by (simp add: eligible_valid)
  show ?thesis
  proof (cases err)
    case None
    with ok pb cs process_bookings_complete [of "steps env" 0 "eligible cfg env st" st2 st3 cs] False
    show ?thesis by simp
  next
    case (Some e)
    with bad pb cs process_bookings_error [of "steps env" 0 "eligible cfg env st" st2 e st3 cs] valid False
    show ?thesis by simp
  qed
qed

subsection \<open>Runs\<close>

lemma sync_ids_mono:
  "set (processedBookingIds st) \<subseteq> set (processedBookingIds (final (syncBookingsToSubstack cfg env st)))"
  by (simp add: sync_ids)

lemma sync_calls_eligible:
  assumes "(b, r) \<in> set (calls (syncBookingsToSubstack cfg env st))"
  shows "b \<in> set (eligible cfg env st)"
proof -
  from assms have "b \<in> set (map fst (calls (syncBookingsToSubstack cfg env st)))" by force
  moreover have "set (map fst (calls (syncBookingsToSubstack cfg env st))) \<subseteq> set (eligible cfg env st)"
    by (rule set_mono_prefix) (rule sync_calls_prefix)
  ultimately show ?thesis by blast
qed

lemma run_cycles_ids:
  "set (processedBookingIds (fst (run_cycles cfg envs st))) =
     set (processedBookingIds st)
       \<union> {toString (id b) | b. (b, Returned True) \<in> set (snd (run_cycles cfg envs st))}"
proof (induction envs arbitrary: st)
  case Nil
  then show ?case by simp
next
  case (Cons env envs)
  let ?r = "syncBookingsToSubstack cfg env st"
  obtain st' cs where run: "run_cycles cfg envs (final ?r) = (st', cs)"
    by (cases "run_cycles cfg envs (final ?r)")
  have "set (processedBookingIds st') =
          set (processedBookingIds (final ?r)) \<union> {toString (id b) | b. (b, Returned True) \<in> set cs}"
    using Cons.IH [of "final ?r"] run by simp
  then show ?case
    using run sync_ids [of cfg env st] by (auto simp: Let_def)
qed

lemma run_cycles_calls:
  "(b, r) \<in> set (snd (run_cycles cfg envs st)) \<Longrightarrow>
     (\<exists>t. created_at b = Some t \<and> AUTOMATION_START_TIME cfg < t)
     \<and> toString (id b) \<notin> set (processedBookingIds st)"
proof (induction envs arbitrary: st)
  case Nil
  then show ?case by simp
next
  case (Cons env envs)
  let ?r = "syncBookingsToSubstack cfg env st"
  obtain st' cs where run: "run_cycles cfg envs (final ?r) = (st', cs)"
    by (cases "run_cycles cfg envs (final ?r)")
  from Cons.prems run have "(b, r) \<in> set (calls ?r) \<or> (b, r) \<in> set cs"
    by (simp add: Let_def)
  then show ?case
  proof
    assume "(b, r) \<in> set (calls ?r)"
    then have "b \<in> set (eligible cfg env st)" by (rule sync_calls_eligible)
    then show ?thesis by (simp add: eligible_filter)
  next
    assume "(b, r) \<in> set cs"
    with run have "(b, r) \<in> set (snd (run_cycles cfg envs (final ?r)))" by simp
    from Cons.IH [OF this] sync_ids_mono [of st cfg env] show ?thesis by auto
  qed
qed

subsection \<open>The clock\<close>

lemma logActivity_clock:
  "logActivity e (st\<lparr>lastCheckTime := x\<rparr>) = (logActivity e st)\<lparr>lastCheckTime := x\<rparr>"
  by (simp add: logActivity_def)

lemma logAll_clock:
  "logAll evs (st\<lparr>lastCheckTime := x\<rparr>) = (logAll evs st)\<lparr>lastCheckTime := x\<rparr>"
  unfolding logAll_def by (induction evs arbitrary: st) (simp_all add: logActivity_clock)

lemma subscribeToSubstack_clock:
  "subscribeToSubstack env e n (st\<lparr>lastCheckTime := x\<rparr>) =
     apsnd (\<lambda>s. s\<lparr>lastCheckTime := x\<rparr>) (subscribeToSubstack env e n st)"
  by (auto simp add: subscribeToSubstack_def Let_def logAll_clock logActivity_clock
      split: prod.splits sum.splits option.splits)

lemma saveProcessedBooking_clock:
  "saveProcessedBooking w b (st\<lparr>lastCheckTime := x\<rparr>) =
     (saveProcessedBooking w b st)\<lparr>lastCheckTime := x\<rparr>"
  by (simp add: saveProcessedBooking_def Let_def logActivity_clock split: write_outcome.splits)

lemma getNewBookings_clock:
  "getNewBookings r (st\<lparr>lastCheckTime := x\<rparr>) =
     apsnd (\<lambda>s. s\<lparr>lastCheckTime := x\<rparr>) (getNewBookings r st)"
  by (simp add: getNewBookings_def logActivity_clock split: sum.splits)

lemma process_bookings_clock:
  "process_bookings env i bs (st\<lparr>lastCheckTime := x\<rparr>) =
     (case process_bookings env i bs st of (err, s, cs) \<Rightarrow> (err, s\<lparr>lastCheckTime := x\<rparr>, cs))"
proof (induction bs arbitrary: i st)
  case Nil
  then show ?case by simp
next
  case (Cons b bs)
  show ?case
    by (simp add: Let_def logActivity_clock subscribeToSubstack_clock saveProcessedBooking_clock
        Cons.IH split: option.splits prod.splits sum.splits)
qed


lemma sync_clock:
  assumes "response env' = response env" "steps env' = steps env"
  shows "calls (syncBookingsToSubstack cfg env' (st\<lparr>lastCheckTime := x\<rparr>))
           = calls (syncBookingsToSubstack cfg env st)
       \<and> (\<exists>y. final (syncBookingsToSubstack cfg env' (st\<lparr>lastCheckTime := x\<rparr>))
                = (final (syncBookingsToSubstack cfg env st))\<lparr>lastCheckTime := y\<rparr>)"
proof -
  let ?st0 = "logActivity StartingSync st"
  obtain bs st1 where g: "getNewBookings (response env) ?st0 = (bs, st1)"
    by (cases "getNewBookings (response env) ?st0")
  then have g': "getNewBookings (response env') (logActivity StartingSync (st\<lparr>lastCheckTime := x\<rparr>))
                  = (bs, st1\<lparr>lastCheckTime := x\<rparr>)"
    using assms(1) by (simp add: logActivity_clock getNewBookings_clock)
  let ?el = "gdprCompliantBookings cfg (processedBookingIds st1) bs"
  let ?st2 = "logActivity (FoundBookings (length bs) (length ?el)) st1"
  obtain err st3 cs where pb: "process_bookings (steps env) 0 ?el ?st2 = (err, st3, cs)"
    by (cases "process_bookings (steps env) 0 ?el ?st2") auto
  then have pb': "process_bookings (steps env') 0 ?el (?st2\<lparr>lastCheckTime := x\<rparr>)
                   = (err, st3\<lparr>lastCheckTime := x\<rparr>, cs)"
    using assms(2) by (simp add: process_bookings_clock)
  have calls: "calls (syncBookingsToSubstack cfg env' (st\<lparr>lastCheckTime := x\<rparr>))
           = calls (syncBookingsToSubstack cfg env st)"
    using g g' pb pb'
    by (simp add: syncBookingsToSubstack_def Let_def logActivity_clock split: option.splits)
  have "final (syncBookingsToSubstack cfg env' (st\<lparr>lastCheckTime := x\<rparr>))
          = (final (syncBookingsToSubstack cfg env st))\<lparr>lastCheckTime := x\<rparr>
      \<or> final (syncBookingsToSubstack cfg env' (st\<lparr>lastCheckTime := x\<rparr>))
          = (final (syncBookingsToSubstack cfg env st))\<lparr>lastCheckTime := now env'\<rparr>"
    using g g' pb pb'
    by (simp add: syncBookingsToSubstack_def Let_def logActivity_clock split: option.splits)
  with calls show ?thesis by blast
qed

lemma run_cycles_clock:
  "list_all2 (\<lambda>e e'. response e' = response e \<and> steps e' = steps e) envs envs' \<Longrightarrow>
     snd (run_cycles cfg envs' (st\<lparr>lastCheckTime := x\<rparr>)) = snd (run_cycles cfg envs st)"
proof (induction envs envs' arbitrary: st x rule: list_all2_induct)
  case Nil
  then show ?case by simp
next
  case (Cons env envs env' envs')
  from Cons.hyps(1) have same: "response env' = response env" "steps env' = steps env" by simp_all
  from sync_clock [OF same, where cfg = cfg and st = st and x = x] obtain y where
    c: "calls (syncBookingsToSubstack cfg env' (st\<lparr>lastCheckTime := x\<rparr>))
           = calls (syncBookingsToSubstack cfg env st)"
    and f: "final (syncBookingsToSubstack cfg env' (st\<lparr>lastCheckTime := x\<rparr>))
                = (final (syncBookingsToSubstack cfg env st))\<lparr>lastCheckTime := y\<rparr>"
    by blast
  show ?case
    using c f Cons.IH [where st = "final (syncBookingsToSubstack cfg env st)" and x = y]
    by (simp add: Let_def case_prod_unfold)
qed

subsection \<open>Unique ids, and runs without an error\<close>

lemma sync_calls_distinct:
  assumes "distinct (map (\<lambda>b. toString (id b)) (fst (getNewBookings (response env) st)))"
  shows "distinct (map (\<lambda>c. toString (id (fst c))) (calls (syncBookingsToSubstack cfg env st)))"
proof -
  have "distinct (map (\<lambda>b. toString (id b)) (eligible cfg env st))"
    unfolding eligible_filter using assms by (rule distinct_map_filter)
  moreover have "prefix (map (\<lambda>b. toString (id b)) (map fst (calls (syncBookingsToSubstack cfg env st))))
           (map (\<lambda>b. toString (id b)) (eligible cfg env st))"
    by (rule map_mono_prefix) (rule sync_calls_prefix)
  ultimately have "distinct (map (\<lambda>b. toString (id b)) (map fst (calls (syncBookingsToSubstack cfg env st))))"
    by (auto simp: prefix_def)
  then show ?thesis by (simp add: comp_def)
qed

lemma sync_failed_absent:
  assumes "distinct (map (\<lambda>b. toString (id b)) (fst (getNewBookings (response env) st)))"
    and "(b, Returned False) \<in> set (calls (syncBookingsToSubstack cfg env st))"
  shows "toString (id b) \<notin> set (processedBookingIds (final (syncBookingsToSubstack cfg env st)))"
proof
  let ?r = "syncBookingsToSubstack cfg env st"
  assume "toString (id b) \<in> set (processedBookingIds (final ?r))"
  moreover have "toString (id b) \<notin> set (processedBookingIds st)"
    using sync_calls_eligible [OF assms(2)] by (simp add: eligible_filter)
  ultimately obtain b' where b': "(b', Returned True) \<in> set (calls ?r)"
      "toString (id b') = toString (id b)"
    by (auto simp: sync_ids)
  have "inj_on (\<lambda>c. toString (id (fst c))) (set (calls ?r))"
    using sync_calls_distinct [OF assms(1), of cfg] by (simp add: distinct_map)
  from inj_onD [OF this, of "(b', Returned True)" "(b, Returned False)"] b' assms(2)
  show False by simp
qed

lemma run_cycles_ids_mono:
  "set (processedBookingIds st) \<subseteq> set (processedBookingIds (fst (run_cycles cfg envs st)))"
  by (simp add: run_cycles_ids)

lemma sync_stops_only_on_error:
  assumes "length (calls (syncBookingsToSubstack cfg env st)) < length (eligible cfg env st)"
  shows "calls (syncBookingsToSubstack cfg env st) \<noteq> []
       \<and> (\<exists>e. snd (last (calls (syncBookingsToSubstack cfg env st))) = Raised e)"
proof (cases "outcome (syncBookingsToSubstack cfg env st)")
  case ReturnedEarly
  with sync_outcome_cases [of cfg env st] assms show ?thesis by simp
next
  case Completed
  with sync_outcome_cases [of cfg env st] have
    "map fst (calls (syncBookingsToSubstack cfg env st)) = eligible cfg env st" by simp
  then have "length (calls (syncBookingsToSubstack cfg env st)) = length (eligible cfg env st)"
    by (metis length_map)
  with assms show ?thesis by simp
next
  case (Threw e)
  with sync_outcome_cases [of cfg env st] show ?thesis by blast
qed

subsection \<open>The store and the two submitters\<close>

lemma loadProcessedBookings_distinct: "distinct (processedBookingIds (loadProcessedBookings st))"
  by (cases "processedFile st")
     (simp_all add: loadProcessedBookings_def new_Set_is_distinct)

lemma saveProcessedBooking_distinct:
  "distinct (processedBookingIds st) \<Longrightarrow> distinct (processedBookingIds (saveProcessedBooking w b st))"
  by (simp add: saveProcessedBooking_ids Set_add_distinct)

lemma subscribeToSubstack_fallback_requests:
  "map req_url (fst (snd (subscribeToSubstack_fallback env e n st))) =
     (case primary env of PostStatus s \<Rightarrow> [ApiSubscribe] | PostRejects m \<Rightarrow> [ApiSubscribe, ApiFree])"
  by (simp add: subscribeToSubstack_fallback_def Let_def split: http_outcome.splits)

lemma subscribeToSubstack_fallback_result:
  "fst (subscribeToSubstack_fallback env e n st) =
     (case primary env of
        PostStatus s \<Rightarrow> s = 200 \<or> s = 201
      | PostRejects m \<Rightarrow>
          (case alternative env of PostStatus s \<Rightarrow> s = 200 \<or> s = 201 | PostRejects m' \<Rightarrow> False))"
  by (simp add: subscribeToSubstack_fallback_def Let_def split: http_outcome.splits)

lemma subscribeToSubstack_fallback_scenarios:
  "subscribeToSubstack_fallback posts_both_fail ''a@b.com'' None fresh_state =
     (False,
      [\<lparr>req_url = ApiSubscribe, req_email = ''a@b.com'', req_name = []\<rparr>,
       \<lparr>req_url = ApiFree, req_email = ''a@b.com'', req_name = []\<rparr>],
      logActivity (ErrorSubscribing ''a@b.com'' ''status 404'' ''timeout'') fresh_state)"
  "fst (subscribeToSubstack_fallback posts_second_succeeds ''a@b.com'' None fresh_state) = True"
  by (simp_all add: subscribeToSubstack_fallback_def posts_both_fail_def posts_second_succeeds_def)

lemma subscribeToSubstack_returns:
  assumes "close_error env = None \<or> \<not> browser_launched (page_run env)"
  shows "fst (subscribeToSubstack env e n st)
           = Inr (case page_run env of Submitted c u \<Rightarrow> True | _ \<Rightarrow> False)"
  using assms by (auto simp add: subscribeToSubstack_result)

section \<open>The claims\<close>

text \<open>
  C1. The eligibility filter is a function of the bookings, the processed set and the
  cutoff alone. A booking is in its output exactly if it is in the input, its
  \<open>created_at\<close> is later than the cutoff and its id, as a string, is not in the
  processed set; the output is the input with the other bookings removed, in the
  input's order.
\<close>

theorem eligibility_filter_stable:
  "gdprCompliantBookings cfg processed bookings =
     filter (\<lambda>b. (\<exists>t. created_at b = Some t \<and> AUTOMATION_START_TIME cfg < t)
                  \<and> toString (id b) \<notin> set processed) bookings
   \<and> (b \<in> set (gdprCompliantBookings cfg processed bookings) \<longleftrightarrow>
        b \<in> set bookings \<and> (\<exists>t. created_at b = Some t \<and> AUTOMATION_START_TIME cfg < t)
        \<and> toString (id b) \<notin> set processed)
   \<and> subseq (gdprCompliantBookings cfg processed bookings) bookings"
proof -
  have eq: "gdprCompliantBookings cfg processed bookings =
     filter (\<lambda>b. (\<exists>t. created_at b = Some t \<and> AUTOMATION_START_TIME cfg < t)
                  \<and> toString (id b) \<notin> set processed) bookings"
    unfolding gdprCompliantBookings_def Array_filter_eq
    by (rule filter_cong) (simp_all add: gdprCompliant_iff)
  then show ?thesis by auto
qed

theorem eligibility_filter_stable_witness:
  "gdprCompliantBookings CONFIG [''B''] [booking_A, booking_B, booking_at_cutoff, booking_C]
     = [booking_C]
   \<and> booking_at_cutoff \<notin> set (gdprCompliantBookings CONFIG [''B'']
        [booking_A, booking_B, booking_at_cutoff, booking_C])"
proof -
  have "filter (\<lambda>b. (\<exists>t. created_at b = Some t \<and> AUTOMATION_START_TIME CONFIG < t)
                  \<and> toString (id b) \<notin> set [''B''])
          [booking_A, booking_B, booking_at_cutoff, booking_C] = [booking_C]"
    by (simp add: booking_A_def booking_B_def booking_C_def booking_at_cutoff_def CONFIG_def
        digits.simps)
  with eligibility_filter_stable [of CONFIG "[''B'']"
      "[booking_A, booking_B, booking_at_cutoff, booking_C]" booking_at_cutoff]
  show ?thesis by (simp add: booking_C_def booking_at_cutoff_def)
qed

text \<open>
  C2. In a run of any number of cycles, with any answers of the booking API in any
  order, every booking passed to the submitter has a valid \<open>created_at\<close> that is
  strictly later than the cutoff; so a booking created at or before the cutoff,
  the one created exactly at the cutoff included, is never passed to it. The bookings
  passed do not depend on the local clock: changing \<open>lastCheckTime\<close> and the clock
  readings of the cycles changes none of the submitter calls.
\<close>

theorem cutoff_bookings_never_submitted:
  "((b, r) \<in> set (snd (run_cycles cfg envs st)) \<longrightarrow>
       (\<exists>t. created_at b = Some t \<and> AUTOMATION_START_TIME cfg < t))
   \<and> (created_at b = Some (AUTOMATION_START_TIME cfg) \<longrightarrow>
       (b, r) \<notin> set (snd (run_cycles cfg envs st)))
   \<and> (list_all2 (\<lambda>e e'. response e' = response e \<and> steps e' = steps e) envs envs' \<longrightarrow>
       snd (run_cycles cfg envs' (st\<lparr>lastCheckTime := x\<rparr>)) = snd (run_cycles cfg envs st))"
proof -
  have later: "\<exists>t. created_at b = Some t \<and> AUTOMATION_START_TIME cfg < t"
    if "(b, r) \<in> set (snd (run_cycles cfg envs st))"
    using run_cycles_calls [OF that] by simp
  then have strict: "(b, r) \<notin> set (snd (run_cycles cfg envs st))"
    if "created_at b = Some (AUTOMATION_START_TIME cfg)"
    using that by auto
  from later strict
    run_cycles_clock [where envs = envs and envs' = envs' and cfg = cfg and st = st and x = x]
  show ?thesis by blast
qed

theorem cutoff_bookings_never_submitted_witness:
  "snd (run_cycles CONFIG [cycle_first_fails, cycle_first_fails] fresh_state) =
     [(booking_B, Returned False), (booking_C, Returned True), (booking_B, Returned False)]
   \<and> snd (run_cycles CONFIG [cycle_first_fails\<lparr>now := 5\<rparr>, cycle_first_fails\<lparr>now := 7\<rparr>]
           (fresh_state\<lparr>lastCheckTime := 3\<rparr>)) =
     [(booking_B, Returned False), (booking_C, Returned True), (booking_B, Returned False)]
   \<and> (\<exists>t. created_at booking_B = Some t \<and> AUTOMATION_START_TIME CONFIG < t)
   \<and> created_at booking_at_cutoff = Some (AUTOMATION_START_TIME CONFIG)"
proof -
  have run: "snd (run_cycles CONFIG [cycle_first_fails, cycle_first_fails] fresh_state) =
     [(booking_B, Returned False), (booking_C, Returned True), (booking_B, Returned False)]"
    by code_simp
  have same: "list_all2 (\<lambda>e e'. response e' = response e \<and> steps e' = steps e)
      [cycle_first_fails, cycle_first_fails]
      [cycle_first_fails\<lparr>now := 5\<rparr>, cycle_first_fails\<lparr>now := 7\<rparr>]"
    by simp
  have cut: "created_at booking_at_cutoff = Some (AUTOMATION_START_TIME CONFIG)"
    by (simp add: booking_at_cutoff_def CONFIG_def)
  from cutoff_bookings_never_submitted [where b = booking_B and r = "Returned False"
      and cfg = CONFIG and envs = "[cycle_first_fails, cycle_first_fails]" and st = fresh_state
      and envs' = "[cycle_first_fails\<lparr>now := 5\<rparr>, cycle_first_fails\<lparr>now := 7\<rparr>]"
      and x = 3] run same cut
  show ?thesis by simp
qed

text \<open>
  C3. A submission failure can end the loop. The API returns \<open>B\<close> and \<open>C\<close>, with
  different ids, and both are eligible. The submission for \<open>B\<close> fails by a navigation
  timeout, and closing the browser fails as well, so the submitter call raises instead of
  returning \<^verbatim>\<open>false\<close>; the loop has no handler and the cycle ends with that error.
  \<open>C\<close> is never passed to the submitter, although its own session would have
  subscribed it. Where the browser does close after the same timeout, the call returns
  \<^verbatim>\<open>false\<close> and the loop goes on to \<open>C\<close>.
\<close>

theorem submission_failure_aborts_cycle:
  "distinct (map (\<lambda>b. toString (id b))
     (fst (getNewBookings (response cycle_first_close_fails) fresh_state)))
   \<and> eligible CONFIG cycle_first_close_fails fresh_state = [booking_B, booking_C]
   \<and> calls (syncBookingsToSubstack CONFIG cycle_first_close_fails fresh_state)
       = [(booking_B, Raised (ExternalError ''Target closed''))]
   \<and> outcome (syncBookingsToSubstack CONFIG cycle_first_close_fails fresh_state)
       = Threw (ExternalError ''Target closed'')
   \<and> booking_C \<notin> fst ` set (calls (syncBookingsToSubstack CONFIG cycle_first_close_fails fresh_state))
   \<and> processedBookingIds (final (syncBookingsToSubstack CONFIG cycle_first_close_fails fresh_state))
       = []
   \<and> calls (syncBookingsToSubstack CONFIG
         (cycle_first_close_fails\<lparr>steps := steps cycle_first_fails\<rparr>) fresh_state)
       = [(booking_B, Returned False), (booking_C, Returned True)]"
proof -
  have ids: "distinct (map (\<lambda>b. toString (id b))
      (fst (getNewBookings (response cycle_first_close_fails) fresh_state)))"
    by code_simp
  have el: "eligible CONFIG cycle_first_close_fails fresh_state = [booking_B, booking_C]"
    by code_simp
  have cs: "calls (syncBookingsToSubstack CONFIG cycle_first_close_fails fresh_state)
       = [(booking_B, Raised (ExternalError ''Target closed''))]"
    by code_simp
  have out: "outcome (syncBookingsToSubstack CONFIG cycle_first_close_fails fresh_state)
       = Threw (ExternalError ''Target closed'')"
    by code_simp
  have differ: "booking_C \<noteq> booking_B"
    by (simp add: booking_B_def booking_C_def)
  have skipped: "booking_C
      \<notin> fst ` set (calls (syncBookingsToSubstack CONFIG cycle_first_close_fails fresh_state))"
    unfolding cs using differ by simp
  have unrecorded: "processedBookingIds
      (final (syncBookingsToSubstack CONFIG cycle_first_close_fails fresh_state)) = []"
    by code_simp
  have sibling: "calls (syncBookingsToSubstack CONFIG
         (cycle_first_close_fails\<lparr>steps := steps cycle_first_fails\<rparr>) fresh_state)
       = [(booking_B, Returned False), (booking_C, Returned True)]"
    by code_simp
  from ids el cs out skipped unrecorded sibling show ?thesis by blast
qed

text \<open>
  C4. Round trip of the store. When the in-memory set is a set (its elements are
  pairwise different) and the write of \<^verbatim>\<open>saveProcessedBooking\<close> succeeds, the file holds
  the whole set, the new id included, and \<^verbatim>\<open>loadProcessedBookings\<close> on that file, from
  whatever state a restarted process has, yields exactly that set, in the same order.
\<close>

theorem store_round_trip:
  assumes "distinct (processedBookingIds st)"
  shows "processedFile (saveProcessedBooking Written bookingId st)
           = JsonArray (Set_add (processedBookingIds st) (toString bookingId))
       \<and> processedBookingIds (saveProcessedBooking Written bookingId st)
           = Set_add (processedBookingIds st) (toString bookingId)
       \<and> processedBookingIds
           (loadProcessedBookings
              (restarted\<lparr>processedFile := processedFile (saveProcessedBooking Written bookingId st)\<rparr>))
           = processedBookingIds (saveProcessedBooking Written bookingId st)"
proof -
  have "distinct (Set_add (processedBookingIds st) (toString bookingId))"
    using assms by (rule Set_add_distinct)
  then have "new_Set (Set_add (processedBookingIds st) (toString bookingId))
               = Set_add (processedBookingIds st) (toString bookingId)"
    by (rule new_Set_distinct_id)
  then show ?thesis
    by (simp add: saveProcessedBooking_def loadProcessedBookings_def Array_from_def Let_def)
qed

theorem store_round_trip_witness:
  "distinct (processedBookingIds (fresh_state\<lparr>processedBookingIds := [''B'', ''41'']\<rparr>))
   \<and> processedBookingIds
       (loadProcessedBookings
          (fresh_state\<lparr>processedFile := processedFile
             (saveProcessedBooking Written (IdNum 17)
                (fresh_state\<lparr>processedBookingIds := [''B'', ''41'']\<rparr>))\<rparr>))
       = [''B'', ''41'', ''17'']"
proof -
  have h: "distinct (processedBookingIds (fresh_state\<lparr>processedBookingIds := [''B'', ''41'']\<rparr>))"
    by simp
  have s: "Set_add [''B'', ''41''] (toString (IdNum 17)) = [''B'', ''41'', ''17'']"
    by code_simp
  note round = store_round_trip [OF h, where bookingId = "IdNum 17" and restarted = fresh_state]
  from round have a: "processedBookingIds
       (loadProcessedBookings
          (fresh_state\<lparr>processedFile := processedFile
             (saveProcessedBooking Written (IdNum 17)
                (fresh_state\<lparr>processedBookingIds := [''B'', ''41'']\<rparr>))\<rparr>))
       = processedBookingIds (saveProcessedBooking Written (IdNum 17)
                (fresh_state\<lparr>processedBookingIds := [''B'', ''41'']\<rparr>))"
    by blast
  from round have b: "processedBookingIds (saveProcessedBooking Written (IdNum 17)
                (fresh_state\<lparr>processedBookingIds := [''B'', ''41'']\<rparr>))
       = Set_add (processedBookingIds (fresh_state\<lparr>processedBookingIds := [''B'', ''41'']\<rparr>))
           (toString (IdNum 17))"
    by blast
  show ?thesis unfolding a b using h s by simp
qed

text \<open>
  C5. Every error thrown inside \<^verbatim>\<open>getNewBookings\<close> is caught there: the function logs
  it and returns the empty list, in particular when the request is rejected. A cycle
  whose fetch yields the empty list returns early: it calls the submitter for no booking
  and leaves the processed set, the file and \<open>lastCheckTime\<close> as they were.
\<close>

theorem fetch_error_gives_empty_cycle:
  "(\<forall>error. getNewBookings_try r = Inl error \<longrightarrow>
      getNewBookings r st = ([], logActivity (ErrorFetching (error_message error)) st))
   \<and> getNewBookings (GetRejects m) st = ([], logActivity (ErrorFetching m) st)
   \<and> (fst (getNewBookings (response env) st) = [] \<longrightarrow>
        outcome (syncBookingsToSubstack cfg env st) = ReturnedEarly
      \<and> calls (syncBookingsToSubstack cfg env st) = []
      \<and> processedBookingIds (final (syncBookingsToSubstack cfg env st)) = processedBookingIds st
      \<and> processedFile (final (syncBookingsToSubstack cfg env st)) = processedFile st
      \<and> lastCheckTime (final (syncBookingsToSubstack cfg env st)) = lastCheckTime st)"
proof -
  have "eligible cfg env st = []" if "fst (getNewBookings (response env) st) = []"
    using that by (simp add: eligible_filter)
  then show ?thesis
    using sync_early [of cfg env st]
    by (simp add: getNewBookings_def getNewBookings_try_def)
qed

theorem fetch_error_gives_empty_cycle_witness:
  "getNewBookings_try (response cycle_fetch_fails) = Inl (ExternalError ''timeout exceeded'')
   \<and> fst (getNewBookings (response cycle_fetch_fails) fresh_state) = []
   \<and> calls (syncBookingsToSubstack CONFIG cycle_fetch_fails fresh_state) = []
   \<and> processedBookingIds (final (syncBookingsToSubstack CONFIG cycle_fetch_fails fresh_state)) = []
   \<and> lastCheckTime (final (syncBookingsToSubstack CONFIG cycle_fetch_fails fresh_state))
       = lastCheckTime fresh_state
   \<and> activityLog (snd (getNewBookings (response cycle_fetch_fails) fresh_state))
       = [ErrorFetching ''timeout exceeded'']"
proof -
  have t: "getNewBookings_try (response cycle_fetch_fails) = Inl (ExternalError ''timeout exceeded'')"
    by (simp add: cycle_fetch_fails_def getNewBookings_try_def)
  have e: "fst (getNewBookings (response cycle_fetch_fails) fresh_state) = []"
    by (simp add: cycle_fetch_fails_def getNewBookings_try_def getNewBookings_def)
  from fetch_error_gives_empty_cycle [where r = "response cycle_fetch_fails" and st = fresh_state
      and env = cycle_fetch_fails and cfg = CONFIG] t e
  show ?thesis by (simp add: fresh_state_def)
qed

text \<open>
  C6. The browser variant of the submitter does not always return: when a call of the
  script times out and closing the browser in the \<^verbatim>\<open>finally\<close> block fails as well,
  the error of \<^verbatim>\<open>browser.close\<close> leaves the function in place of the value
  \<^verbatim>\<open>false\<close>. The cycle has no handler, so it ends with that error after the first
  booking, without processing the second one and without updating \<open>lastCheckTime\<close>.
\<close>

theorem submitter_throws_when_close_fails:
  "fst (subscribeToSubstack session_close_fails (email (contact booking_B)) (name (contact booking_B))
          fresh_state)
     = Inl (ExternalError ''Target closed'')
   \<and> outcome (syncBookingsToSubstack CONFIG cycle_close_fails fresh_state)
       = Threw (ExternalError ''Target closed'')
   \<and> calls (syncBookingsToSubstack CONFIG cycle_close_fails fresh_state)
       = [(booking_B, Raised (ExternalError ''Target closed''))]
   \<and> lastCheckTime (final (syncBookingsToSubstack CONFIG cycle_close_fails fresh_state))
       = lastCheckTime fresh_state"
proof -
  have "fst (subscribeToSubstack session_close_fails (email (contact booking_B))
          (name (contact booking_B)) fresh_state) = Inl (ExternalError ''Target closed'')"
    by (simp add: subscribeToSubstack_result session_close_fails_def)
  moreover have "outcome (syncBookingsToSubstack CONFIG cycle_close_fails fresh_state)
       = Threw (ExternalError ''Target closed'')"
    by code_simp
  moreover have "calls (syncBookingsToSubstack CONFIG cycle_close_fails fresh_state)
       = [(booking_B, Raised (ExternalError ''Target closed''))]"
    by code_simp
  moreover have "lastCheckTime (final (syncBookingsToSubstack CONFIG cycle_close_fails fresh_state))
       = lastCheckTime fresh_state"
    by code_simp
  ultimately show ?thesis by blast
qed

text \<open>
  C7. \<^verbatim>\<open>loadProcessedBookings\<close> fails open: when the file is missing or is not
  parseable, and in general whenever its \<^verbatim>\<open>try\<close> block throws, it returns normally,
  with the empty set in memory and the note that no history was found in the log.
\<close>

theorem load_fails_open:
  "(processedFile st = NoFile \<or> processedFile st = Unparseable \<longrightarrow>
      loadProcessedBookings st = logActivity NoPreviousHistory (st\<lparr>processedBookingIds := []\<rparr>))
   \<and> (\<forall>error. parsed_Set (processedFile st) = Inl error \<longrightarrow>
      loadProcessedBookings st = logActivity NoPreviousHistory (st\<lparr>processedBookingIds := []\<rparr>))"
proof -
  have caught: "loadProcessedBookings st
                  = logActivity NoPreviousHistory (st\<lparr>processedBookingIds := []\<rparr>)"
    if "parsed_Set (processedFile st) = Inl error" for error
    using that by (simp add: loadProcessedBookings_def new_Set_def)
  have "\<exists>error. parsed_Set (processedFile st) = Inl error"
    if "processedFile st = NoFile \<or> processedFile st = Unparseable"
    using that by auto
  with caught show ?thesis by blast
qed

theorem load_fails_open_witness:
  "processedBookingIds (loadProcessedBookings
       (fresh_state\<lparr>processedBookingIds := [''B''], processedFile := Unparseable\<rparr>)) = []
   \<and> processedBookingIds (loadProcessedBookings
       (fresh_state\<lparr>processedBookingIds := [''B''], processedFile := NoFile\<rparr>)) = []
   \<and> processedBookingIds (loadProcessedBookings
       (fresh_state\<lparr>processedBookingIds := [''B''], processedFile := JsonNotIterable\<rparr>)) = []"
  using load_fails_open [where st = "fresh_state\<lparr>processedBookingIds := [''B''], processedFile := Unparseable\<rparr>"]
    load_fails_open [where st = "fresh_state\<lparr>processedBookingIds := [''B''], processedFile := NoFile\<rparr>"]
    load_fails_open [where st = "fresh_state\<lparr>processedBookingIds := [''B''], processedFile := JsonNotIterable\<rparr>"]
  by simp

text \<open>
  C8, as stated, fails: a cycle whose fetch returns no bookings, and a cycle whose
  only booking is older than the cutoff, return early and leave \<open>lastCheckTime\<close> at its
  old value, which is not the clock reading of the cycle.
\<close>

theorem early_return_keeps_lastCheckTime:
  "outcome (syncBookingsToSubstack CONFIG cycle_no_bookings fresh_state) = ReturnedEarly
   \<and> lastCheckTime (final (syncBookingsToSubstack CONFIG cycle_no_bookings fresh_state))
       \<noteq> now cycle_no_bookings
   \<and> outcome (syncBookingsToSubstack CONFIG cycle_only_old fresh_state) = ReturnedEarly
   \<and> lastCheckTime (final (syncBookingsToSubstack CONFIG cycle_only_old fresh_state))
       \<noteq> now cycle_only_old"
proof -
  have "outcome (syncBookingsToSubstack CONFIG cycle_no_bookings fresh_state) = ReturnedEarly"
    "outcome (syncBookingsToSubstack CONFIG cycle_only_old fresh_state) = ReturnedEarly"
    by code_simp+
  moreover have "lastCheckTime (final (syncBookingsToSubstack CONFIG cycle_no_bookings fresh_state))
      = 1753563000000"
    "lastCheckTime (final (syncBookingsToSubstack CONFIG cycle_only_old fresh_state))
      = 1753563000000"
    by code_simp+
  moreover have "now cycle_no_bookings = 1753600000000" "now cycle_only_old = 1753600000000"
    by (simp_all add: cycle_no_bookings_def cycle_only_old_def cycle_fetch_fails_def)
  ultimately show ?thesis by simp
qed

text \<open>
  C8, amended. A cycle that runs the loop to its end sets \<open>lastCheckTime\<close> to the
  clock reading, and it does run the loop to its end whenever the eligible set is not
  empty and every submitter call returned, whatever the calls returned. A cycle returns
  early exactly if its eligible set is empty, and then \<open>lastCheckTime\<close> is unchanged.
\<close>

theorem lastCheckTime_updated_after_loop:
  "(outcome (syncBookingsToSubstack cfg env st) = Completed \<longrightarrow>
      lastCheckTime (final (syncBookingsToSubstack cfg env st)) = now env)
   \<and> (outcome (syncBookingsToSubstack cfg env st) = ReturnedEarly \<longrightarrow>
      lastCheckTime (final (syncBookingsToSubstack cfg env st)) = lastCheckTime st)
   \<and> (outcome (syncBookingsToSubstack cfg env st) = ReturnedEarly \<longleftrightarrow> eligible cfg env st = [])
   \<and> (eligible cfg env st \<noteq> []
        \<and> (\<forall>c \<in> set (calls (syncBookingsToSubstack cfg env st)). \<exists>v. snd c = Returned v) \<longrightarrow>
      outcome (syncBookingsToSubstack cfg env st) = Completed)"
proof -
  let ?r = "syncBookingsToSubstack cfg env st"
  have early: "outcome ?r = ReturnedEarly \<longleftrightarrow> eligible cfg env st = []"
    using sync_outcome_cases [of cfg env st] by blast
  have "outcome ?r = Completed"
    if ne: "eligible cfg env st \<noteq> []" and ret: "\<forall>c \<in> set (calls ?r). \<exists>v. snd c = Returned v"
  proof (cases "outcome ?r")
    case ReturnedEarly
    with early ne show ?thesis by simp
  next
    case Completed
    then show ?thesis .
  next
    case (Threw e)
    with sync_outcome_cases [of cfg env st] have
      raised: "calls ?r \<noteq> []" "snd (last (calls ?r)) = Raised e"
      by blast+
    from raised(1) have "last (calls ?r) \<in> set (calls ?r)" by simp
    with ret obtain v where "snd (last (calls ?r)) = Returned v" by blast
    with raised(2) show ?thesis by simp
  qed
  with early show ?thesis by (auto simp add: sync_time)
qed

theorem lastCheckTime_updated_after_loop_witness:
  "eligible CONFIG cycle_first_fails fresh_state \<noteq> []
   \<and> calls (syncBookingsToSubstack CONFIG cycle_first_fails fresh_state)
       = [(booking_B, Returned False), (booking_C, Returned True)]
   \<and> outcome (syncBookingsToSubstack CONFIG cycle_first_fails fresh_state) = Completed
   \<and> lastCheckTime (final (syncBookingsToSubstack CONFIG cycle_first_fails fresh_state))
       = now cycle_first_fails"
proof -
  have ne: "eligible CONFIG cycle_first_fails fresh_state \<noteq> []"
    by code_simp
  have c: "calls (syncBookingsToSubstack CONFIG cycle_first_fails fresh_state)
       = [(booking_B, Returned False), (booking_C, Returned True)]"
    by code_simp
  then have ret: "\<forall>c \<in> set (calls (syncBookingsToSubstack CONFIG cycle_first_fails fresh_state)).
      \<exists>v. snd c = Returned v"
    by auto
  from lastCheckTime_updated_after_loop [where cfg = CONFIG and env = cycle_first_fails
      and st = fresh_state] ne c ret
  show ?thesis by blast
qed



text \<open>
  C10. When the request succeeds and the body has no \<^verbatim>\<open>data\<close> property, or a
  \<^verbatim>\<open>null\<close> one, \<^verbatim>\<open>getNewBookings\<close> returns the empty list without logging an
  error, and the cycle is the same, in result and in final state, as the cycle whose
  response carries an empty array: it returns early without a submitter call.
\<close>

theorem missing_data_is_no_bookings:
  "getNewBookings (GetResolves (Body DataUndefined)) st = ([], st)
   \<and> getNewBookings (GetResolves (Body DataNull)) st = ([], st)
   \<and> syncBookingsToSubstack cfg (env\<lparr>response := GetResolves (Body DataUndefined)\<rparr>) st
       = syncBookingsToSubstack cfg (env\<lparr>response := GetResolves (Body (DataArray []))\<rparr>) st
   \<and> syncBookingsToSubstack cfg (env\<lparr>response := GetResolves (Body DataNull)\<rparr>) st
       = syncBookingsToSubstack cfg (env\<lparr>response := GetResolves (Body (DataArray []))\<rparr>) st
   \<and> outcome (syncBookingsToSubstack cfg (env\<lparr>response := GetResolves (Body (DataArray []))\<rparr>) st)
       = ReturnedEarly
   \<and> calls (syncBookingsToSubstack cfg (env\<lparr>response := GetResolves (Body (DataArray []))\<rparr>) st)
       = []"
proof -
  have fetch: "getNewBookings (GetResolves (Body d)) s = ([], s)"
    if "d = DataUndefined \<or> d = DataNull \<or> d = DataArray []" for d s
    using that by (auto simp add: getNewBookings_def getNewBookings_try_def)
  have cycle: "syncBookingsToSubstack cfg (env\<lparr>response := GetResolves (Body d)\<rparr>) st
      = \<lparr>outcome = ReturnedEarly,
         final = logActivity NoBookingsFound (logActivity StartingSync st),
         calls = []\<rparr>"
    if "d = DataUndefined \<or> d = DataNull \<or> d = DataArray []" for d
    using fetch [OF that] by (simp add: syncBookingsToSubstack_def)
  show ?thesis
    by (simp add: fetch cycle)
qed

theorem missing_data_is_no_bookings_witness:
  "syncBookingsToSubstack CONFIG (cycle_first_fails\<lparr>response := GetResolves (Body DataUndefined)\<rparr>)
      fresh_state
     = \<lparr>outcome = ReturnedEarly,
        final = fresh_state\<lparr>activityLog := [StartingSync, NoBookingsFound]\<rparr>,
        calls = []\<rparr>"
proof -
  have "syncBookingsToSubstack CONFIG (cycle_first_fails\<lparr>response := GetResolves (Body (DataArray []))\<rparr>)
      fresh_state
     = \<lparr>outcome = ReturnedEarly,
        final = fresh_state\<lparr>activityLog := [StartingSync, NoBookingsFound]\<rparr>,
        calls = []\<rparr>"
    by (simp add: syncBookingsToSubstack_def getNewBookings_def getNewBookings_try_def
        logActivity_def fresh_state_def)
  with missing_data_is_no_bookings [where cfg = CONFIG and env = cycle_first_fails
      and st = fresh_state]
  show ?thesis by simp
qed

end
